theory Spec2Isabelle
  imports
    Main
    "HOL-Library.Word"
    "HOL-Library.Log_Nat"
    "HOL-Library.AList"
    "HOL-Library.Char_ord"
    "HOL-Library.List_Lexorder"
    "HOL-Library.Multiset"
    "HOL-Library.Sublist"
begin

unbundle bit_operations_syntax

section \<open>BtmonParser: the device aggregator and the block parser of btmonParser.py\<close>

text \<open>
  The embedding follows \<^verbatim>\<open>src/btmonParser.py\<close>. Text is modelled as \<^typ>\<open>string\<close>
  with ASCII characters: \<^verbatim>\<open>str.strip\<close>, \<^verbatim>\<open>str.upper\<close> and the regular
  expression class \<^verbatim>\<open>\S\<close> are given for code points below 128, and characters
  above are left alone. The dictionary \<^verbatim>\<open>self.devices\<close> keeps insertion order, so it
  is an association list: a store to a present key replaces the value in place, a store
  to a new key appends. An exception is a value \<open>Inl e\<close>; both conversions that can
  raise in \<^verbatim>\<open>_addDeviceRecord\<close> run before the first store, so \<open>Inl e\<close> there
  means that \<^verbatim>\<open>self.devices\<close> is as it was before the call.
\<close>

subsection \<open>Strings\<close>

text \<open>The characters for which \<^verbatim>\<open>str.isspace\<close> holds, below code point 128.\<close>

definition isspace :: "char \<Rightarrow> bool" where
  "isspace c = (c \<in> set [CHR 0x09, CHR 0x0A, CHR 0x0B, CHR 0x0C, CHR 0x0D,
                          CHR 0x1C, CHR 0x1D, CHR 0x1E, CHR 0x1F, CHR 0x20])"

definition lstrip :: "string \<Rightarrow> string" where
  "lstrip s = dropWhile isspace s"

definition rstrip :: "string \<Rightarrow> string" where
  "rstrip s = rev (dropWhile isspace (rev s))"

definition strip :: "string \<Rightarrow> string" where
  "strip s = rstrip (lstrip s)"

definition upper_char :: "char \<Rightarrow> char" where
  "upper_char c =
     (case map_of (zip ''abcdefghijklmnopqrstuvwxyz'' ''ABCDEFGHIJKLMNOPQRSTUVWXYZ'') c of
        Some u \<Rightarrow> u | None \<Rightarrow> c)"

definition lower_char :: "char \<Rightarrow> char" where
  "lower_char c =
     (case map_of (zip ''ABCDEFGHIJKLMNOPQRSTUVWXYZ'' ''abcdefghijklmnopqrstuvwxyz'') c of
        Some u \<Rightarrow> u | None \<Rightarrow> c)"

definition upper :: "string \<Rightarrow> string" where
  "upper s = map upper_char s"

subsection \<open>The builtin \<^verbatim>\<open>int\<close> on strings\<close>

datatype error = ValueError

definition digit_val :: "char \<Rightarrow> int option" where
  "digit_val c = map_of (zip ''0123456789'' [0, 1, 2, 3, 4, 5, 6, 7, 8, 9]) c"

definition is_digit :: "char \<Rightarrow> bool" where
  "is_digit c = (digit_val c \<noteq> None)"

definition digits_val :: "string \<Rightarrow> int" where
  "digits_val ds = foldl (\<lambda>a c. 10 * a + (case digit_val c of Some d \<Rightarrow> d | None \<Rightarrow> 0)) 0 ds"

text \<open>
  An underscore is allowed only between two digits; \<open>prev\<close> is the character before,
  \<open>CHR 0x00\<close> at the start.
\<close>

fun us_ok :: "char \<Rightarrow> string \<Rightarrow> bool" where
  "us_ok prev [] = (prev \<noteq> CHR ''_'')"
| "us_ok prev (c # cs) =
     ((if c = CHR ''_'' then is_digit prev else (prev = CHR ''_'' \<longrightarrow> is_digit c))
      \<and> us_ok c cs)"

definition split_sign :: "string \<Rightarrow> bool \<times> string" where
  "split_sign s =
     (if s \<noteq> [] \<and> hd s = CHR ''-'' then (True, tl s)
      else if s \<noteq> [] \<and> hd s = CHR ''+'' then (False, tl s)
      else (False, s))"

text \<open>
  The conversions \<^verbatim>\<open>int\<close> and \<^verbatim>\<open>float\<close> drop the whitespace of C around an
  ASCII string, which is less than \<^verbatim>\<open>str.strip\<close> drops: \<^verbatim>\<open>float("\x1f1")\<close> raises.
\<close>

definition isspace_c :: "char \<Rightarrow> bool" where
  "isspace_c c = (c \<in> set [CHR 0x09, CHR 0x0A, CHR 0x0B, CHR 0x0C, CHR 0x0D, CHR 0x20])"

definition strip_c :: "string \<Rightarrow> string" where
  "strip_c s = rev (dropWhile isspace_c (rev (dropWhile isspace_c s)))"

text \<open>
  \<^verbatim>\<open>int(s)\<close> in base 10: surrounding whitespace, an optional sign, digits with single
  underscores between them. The result is unbounded. (The interpreter's configurable
  limit on the number of digits is not part of the model.)
\<close>

definition py_int :: "string \<Rightarrow> int option" where
  "py_int s =
     (let (neg, body) = split_sign (strip_c s) in
      if body \<noteq> [] \<and> list_all (\<lambda>c. is_digit c \<or> c = CHR ''_'') body \<and> us_ok (CHR 0x00) body
      then (let v = digits_val (filter is_digit body) in Some (if neg then - v else v))
      else None)"

subsection \<open>The builtin \<^verbatim>\<open>float\<close>: IEEE 754 doubles as 64-bit words\<close>

text \<open>
  A Python float is its 64-bit pattern: sign, 11 exponent bits, 52 mantissa bits. The
  comparisons are those of IEEE 754: every comparison with a NaN is false, and the two
  zeros are equal.
\<close>

type_synonym pyfloat = "64 word"

definition is_nan :: "pyfloat \<Rightarrow> bool" where
  "is_nan x = (0x7FF0000000000000 < (x AND 0x7FFFFFFFFFFFFFFF))"

definition fl_key :: "pyfloat \<Rightarrow> int" where
  "fl_key x = (if bit x 63 then - uint (x AND 0x7FFFFFFFFFFFFFFF) else uint x)"

definition fl_lt :: "pyfloat \<Rightarrow> pyfloat \<Rightarrow> bool" where
  "fl_lt a b = (\<not> is_nan a \<and> \<not> is_nan b \<and> fl_key a < fl_key b)"

definition fl_gt :: "pyfloat \<Rightarrow> pyfloat \<Rightarrow> bool" where
  "fl_gt a b = fl_lt b a"

definition fl_le :: "pyfloat \<Rightarrow> pyfloat \<Rightarrow> bool" where
  "fl_le a b = (\<not> is_nan a \<and> \<not> is_nan b \<and> fl_key a \<le> fl_key b)"

text \<open>Rounding a quotient of positive integers to the nearest integer, ties to even.\<close>

definition round_half_even :: "int \<Rightarrow> int \<Rightarrow> int" where
  "round_half_even a b =
     (let q = a div b; r = a mod b in
      if 2 * r < b then q else if b < 2 * r then q + 1 else if even q then q else q + 1)"

text \<open>
  The bits of the double nearest to \<open>n / d\<close> for \<open>0 < n\<close> and \<open>0 < d\<close>: \<open>e\<close> is the
  binary exponent of the quotient, \<open>p\<close> the exponent of the last mantissa bit (never
  below that of the subnormals), \<open>m\<close> the rounded mantissa. A result beyond the largest
  double is infinity.
\<close>

definition double_bits :: "int \<Rightarrow> int \<Rightarrow> int" where
  "double_bits n d =
     (let k = bitlen n - bitlen d;
          e = (if (if 0 \<le> k then d * 2 ^ nat k \<le> n else d \<le> n * 2 ^ nat (- k)) then k else k - 1);
          p = max (e - 52) (- 1074);
          m = (if 0 \<le> p then round_half_even n (d * 2 ^ nat p)
               else round_half_even (n * 2 ^ nat (- p)) d)
      in min ((p + 1074) * 2 ^ 52 + m) 0x7FF0000000000000)"

definition with_sign :: "bool \<Rightarrow> int \<Rightarrow> pyfloat" where
  "with_sign neg b = word_of_int (if neg then b + 0x8000000000000000 else b)"

text \<open>
  The decimal part of the grammar: digits, an optional point and digits (one digit at
  least), an optional exponent; the value is \<open>mantissa * 10 ^ scale\<close>.
\<close>

definition parse_exponent :: "string \<Rightarrow> int option" where
  "parse_exponent s =
     (if s = [] then Some 0
      else if hd s = CHR ''e'' \<or> hd s = CHR ''E'' then
        (let (neg, ds) = split_sign (tl s) in
         if ds \<noteq> [] \<and> list_all is_digit ds
         then Some (if neg then - digits_val ds else digits_val ds) else None)
      else None)"

definition parse_decimal :: "string \<Rightarrow> (int \<times> int) option" where
  "parse_decimal s =
     (let ip = takeWhile is_digit s; r1 = dropWhile is_digit s;
          point = (r1 \<noteq> [] \<and> hd r1 = CHR ''.'');
          fp = (if point then takeWhile is_digit (tl r1) else []);
          r2 = (if point then dropWhile is_digit (tl r1) else r1)
      in if ip = [] \<and> fp = [] then None
         else (case parse_exponent r2 of
                 None \<Rightarrow> None
               | Some ex \<Rightarrow> Some (digits_val (ip @ fp), ex - int (length fp))))"

text \<open>
  \<^verbatim>\<open>float(s)\<close>: surrounding whitespace is dropped, underscores are allowed between
  digits only, then a sign and either \<^verbatim>\<open>inf\<close>, \<^verbatim>\<open>infinity\<close>, \<^verbatim>\<open>nan\<close> (in any
  case) or a decimal number, rounded to the nearest double. Anything else raises.
\<close>

definition py_float :: "string \<Rightarrow> pyfloat option" where
  "py_float s =
     (let s1 = strip_c s in
      if \<not> us_ok (CHR 0x00) s1 then None
      else
        (let (neg, body) = split_sign (filter (\<lambda>c. c \<noteq> CHR ''_'') s1);
             low = map lower_char body in
         if low = ''inf'' \<or> low = ''infinity'' then Some (with_sign neg 0x7FF0000000000000)
         else if low = ''nan'' then Some (with_sign neg 0x7FF8000000000000)
         else (case parse_decimal body of
                 None \<Rightarrow> None
               | Some (n, sc) \<Rightarrow>
                   Some (with_sign neg
                     (if n = 0 then 0
                      else if 0 \<le> sc then double_bits (n * 10 ^ nat sc) 1
                      else double_bits n (10 ^ nat (- sc)))))))"

subsection \<open>Device records and \<^verbatim>\<open>_addDeviceRecord\<close>\<close>

record device =
  firstTime :: pyfloat
  lastTime :: pyfloat
  name :: string
  manufacturer :: string
  rssi :: int

type_synonym devices = "(string \<times> device) list"

text \<open>The \<^verbatim>\<open>else\<close> branch: the record stored for a MAC that is not yet a key.\<close>

definition newRecord :: "pyfloat \<Rightarrow> string \<Rightarrow> string \<Rightarrow> int \<Rightarrow> device" where
  "newRecord t nm mf r =
     \<lparr>firstTime = t, lastTime = t, name = nm, manufacturer = mf, rssi = r\<rparr>"

text \<open>The \<^verbatim>\<open>if mac in self.devices\<close> branch: the four updates, in the order of the code.\<close>

definition updateRecord :: "device \<Rightarrow> pyfloat \<Rightarrow> string \<Rightarrow> string \<Rightarrow> int \<Rightarrow> device" where
  "updateRecord d t nm mf r =
     (let d1 = (if fl_lt t (firstTime d) then d\<lparr>firstTime := t\<rparr>
                else if fl_gt t (lastTime d) then d\<lparr>lastTime := t\<rparr>
                else d);
          d2 = (if name d1 = [] then d1\<lparr>name := nm\<rparr> else d1);
          d3 = (if manufacturer d2 = [] then d2\<lparr>manufacturer := mf\<rparr> else d2)
      in if \<bar>r\<bar> < \<bar>rssi d3\<bar> then d3\<lparr>rssi := r\<rparr> else d3)"

text \<open>The conditional expression \<^verbatim>\<open>int(rssi) if rssi else 5000\<close>.\<close>

definition rssi_value :: "string \<Rightarrow> int option" where
  "rssi_value rs = (if rs \<noteq> [] then py_int rs else Some 5000)"

definition addDeviceRecord ::
  "devices \<Rightarrow> string \<Rightarrow> string \<Rightarrow> string \<Rightarrow> string \<Rightarrow> string \<Rightarrow> error + devices" where
  "addDeviceRecord devs timestamp mac nm mf rs =
     (let mac' = upper (strip mac) in
      if mac' = [] then Inr devs
      else
        (case py_float timestamp of
           None \<Rightarrow> Inl ValueError
         | Some t \<Rightarrow>
             (case rssi_value rs of
                None \<Rightarrow> Inl ValueError
              | Some r \<Rightarrow>
                  (case map_of devs mac' of
                     Some d \<Rightarrow> Inr (AList.update mac' (updateRecord d t nm mf r) devs)
                   | None \<Rightarrow> Inr (AList.update mac' (newRecord t nm mf r) devs)))))"

subsection \<open>Candidate records and runs of merges\<close>

text \<open>
  The five strings of one call, which are the five accumulators of the parser, and a
  run of calls on the same object: the first call that raises ends the run.
\<close>

record candidate =
  c_timestamp :: string
  c_mac :: string
  c_name :: string
  c_manufacturer :: string
  c_rssi :: string

definition addCandidate :: "devices \<Rightarrow> candidate \<Rightarrow> error + devices" where
  "addCandidate devs c =
     addDeviceRecord devs (c_timestamp c) (c_mac c) (c_name c) (c_manufacturer c) (c_rssi c)"

fun addDeviceRecords :: "devices \<Rightarrow> candidate list \<Rightarrow> error + devices" where
  "addDeviceRecords devs [] = Inr devs"
| "addDeviceRecords devs (c # cs) =
     (case addCandidate devs c of Inl e \<Rightarrow> Inl e | Inr devs' \<Rightarrow> addDeviceRecords devs' cs)"

text \<open>The candidates of a run that are merged under the key \<open>m\<close>.\<close>

definition for_mac :: "string \<Rightarrow> candidate list \<Rightarrow> candidate list" where
  "for_mac m cs = filter (\<lambda>c. upper (strip (c_mac c)) = m) cs"

text \<open>The first non-empty string of a list, empty if there is none.\<close>

fun first_nonempty :: "string list \<Rightarrow> string" where
  "first_nonempty [] = []"
| "first_nonempty (x # xs) = (if x \<noteq> [] then x else first_nonempty xs)"

definition cand :: "string \<Rightarrow> string \<Rightarrow> string \<Rightarrow> string \<Rightarrow> string \<Rightarrow> candidate" where
  "cand ts mac nm mf rs =
     \<lparr>c_timestamp = ts, c_mac = mac, c_name = nm, c_manufacturer = mf, c_rssi = rs\<rparr>"

text \<open>
  What one returning call stores under its key, from what was stored there before, and
  the record of one key after a run of returning calls for that key.
\<close>

definition mergeRecord :: "device option \<Rightarrow> pyfloat \<Rightarrow> string \<Rightarrow> string \<Rightarrow> int \<Rightarrow> device" where
  "mergeRecord old t nm mf r =
     (case old of None \<Rightarrow> newRecord t nm mf r | Some d \<Rightarrow> updateRecord d t nm mf r)"

fun recordAfter :: "device option \<Rightarrow> candidate list \<Rightarrow> device option" where
  "recordAfter old [] = old"
| "recordAfter old (c # cs) =
     (case (py_float (c_timestamp c), rssi_value (c_rssi c)) of
        (Some t, Some r) \<Rightarrow>
          recordAfter (Some (mergeRecord old t (c_name c) (c_manufacturer c) r)) cs
      | _ \<Rightarrow> None)"

definition time_ok :: "device \<Rightarrow> bool" where
  "time_ok d = (\<not> fl_lt (lastTime d) (firstTime d))"

subsection \<open>The regular expressions of \<^verbatim>\<open>parse\<close>\<close>











subsection \<open>\<^verbatim>\<open>parse\<close>\<close>










subsection \<open>\<^verbatim>\<open>report\<close>: the rows handed to the table renderer\<close>

text \<open>
  A row is the list \<^verbatim>\<open>[mac, firstTime, lastTime, name, manufacturer, rssi]\<close>; its last
  cell holds a string or an integer. \<open>str_int\<close> is \<^verbatim>\<open>str\<close> on integers, which the
  f-string of the sort key applies to the last cell. Rows are compared as Python
  compares strings: by code points, a proper prefix first. \<^verbatim>\<open>list.sort\<close> is stable,
  as \<^const>\<open>sort_key\<close> is. The result is \<open>None\<close> when there is no device and nothing is
  written; writing the file and rendering the table are outside the model.
\<close>

datatype cell = CellStr string | CellInt int

record row =
  r_mac :: string
  r_firstTime :: pyfloat
  r_lastTime :: pyfloat
  r_name :: string
  r_manufacturer :: string
  r_rssi :: cell

function str_nat :: "nat \<Rightarrow> string" where
  "str_nat n =
     (if n < 10 then [''0123456789'' ! n]
      else str_nat (n div 10) @ [''0123456789'' ! (n mod 10)])"
  by pat_completeness auto
termination
  by (relation "measure id") auto

definition str_int :: "int \<Rightarrow> string" where
  "str_int i = (if i < 0 then CHR ''-'' # str_nat (nat (- i)) else str_nat (nat i))"

definition str_cell :: "cell \<Rightarrow> string" where
  "str_cell x = (case x of CellStr s \<Rightarrow> s | CellInt i \<Rightarrow> str_int i)"

definition make_row :: "string \<times> device \<Rightarrow> row" where
  "make_row p =
     (let mac = fst p; d = snd p in
      \<lparr>r_mac = mac,
       r_firstTime = firstTime d,
       r_lastTime = lastTime d,
       r_name = (if name d \<noteq> [] then name d else mac),
       r_manufacturer = (if manufacturer d \<noteq> [] then manufacturer d else ''Unknown''),
       r_rssi = (if 255 < \<bar>rssi d\<bar> then CellStr ''Unknown'' else CellInt (rssi d))\<rparr>)"

definition row_key :: "row \<Rightarrow> string" where
  "row_key x = str_cell (r_rssi x) @ '' '' @ r_mac x"

definition report :: "devices \<Rightarrow> row list option" where
  "report devs = (if devs = [] then None else Some (sort_key row_key (map make_row devs)))"

section \<open>Properties of the aggregator\<close>

subsection \<open>The comparisons of floats\<close>

lemma fl_le_trans: "fl_le a b \<Longrightarrow> fl_le b c \<Longrightarrow> fl_le a c"
  by (auto simp: fl_le_def)

subsection \<open>One call\<close>

lemma add_returns:
  assumes "addDeviceRecord devs ts mac nm mf rs = Inr devs'" and "upper (strip mac) \<noteq> []"
  shows "\<exists>t r. py_float ts = Some t \<and> rssi_value rs = Some r \<and>
           devs' = AList.update (upper (strip mac))
                     (mergeRecord (map_of devs (upper (strip mac))) t nm mf r) devs"
  using assms
  by (auto simp: addDeviceRecord_def mergeRecord_def Let_def split: option.splits)

lemma add_empty:
  "upper (strip mac) = [] \<Longrightarrow> addDeviceRecord devs ts mac nm mf rs = Inr devs"
  by (simp add: addDeviceRecord_def)



lemma in_update_cases: "p \<in> set (AList.update k v al) \<Longrightarrow> p = (k, v) \<or> p \<in> set al"
  by (induction al) (auto split: if_splits)

lemma addCandidate_other:
  assumes "addCandidate devs c = Inr devs'" and "upper (strip (c_mac c)) \<noteq> m"
  shows "map_of devs' m = map_of devs m"
proof (cases "upper (strip (c_mac c)) = []")
  case True
  with assms show ?thesis by (simp add: addCandidate_def add_empty)
next
  case False
  from add_returns [OF assms(1) [unfolded addCandidate_def] False] assms(2)
  show ?thesis by (auto simp: AList.update_conv')
qed

lemma addCandidate_same:
  assumes "addCandidate devs c = Inr devs'" and "upper (strip (c_mac c)) = m" and "m \<noteq> []"
  shows "\<exists>t r. py_float (c_timestamp c) = Some t \<and> rssi_value (c_rssi c) = Some r \<and>
           map_of devs' m = Some (mergeRecord (map_of devs m) t (c_name c) (c_manufacturer c) r)"
proof -
  from assms have ne: "upper (strip (c_mac c)) \<noteq> []" by simp
  from add_returns [OF assms(1) [unfolded addCandidate_def] ne] assms(2)
  show ?thesis by (auto simp: AList.update_conv')
qed

lemma add_preserves:
  assumes "addDeviceRecord devs ts mac nm mf rs = Inr devs'"
    and "\<forall>p\<in>set devs. P (snd p)"
    and "\<And>old t r. (\<forall>d. old = Some d \<longrightarrow> P d) \<Longrightarrow> py_float ts = Some t
           \<Longrightarrow> P (mergeRecord old t nm mf r)"
  shows "\<forall>p\<in>set devs'. P (snd p)"
proof (cases "upper (strip mac) = []")
  case True
  with assms(1,2) show ?thesis by (simp add: add_empty)
next
  case False
  let ?m = "upper (strip mac)"
  from add_returns [OF assms(1) False] obtain t r where t: "py_float ts = Some t"
    and d: "devs' = AList.update ?m (mergeRecord (map_of devs ?m) t nm mf r) devs"
    by auto
  have "\<forall>d. map_of devs ?m = Some d \<longrightarrow> P d"
    using assms(2) by (metis map_of_SomeD snd_conv)
  from assms(3) [OF this t] have "P (mergeRecord (map_of devs ?m) t nm mf r)" .
  with assms(2) d show ?thesis by (auto dest: in_update_cases)
qed

subsection \<open>The fields of a merged record\<close>

lemma mergeRecord_name:
  "name (mergeRecord old t nm mf r) =
     first_nonempty ((case old of None \<Rightarrow> [] | Some d \<Rightarrow> [name d]) @ [nm])"
  by (simp add: mergeRecord_def newRecord_def updateRecord_def Let_def split: option.splits)

lemma mergeRecord_manufacturer:
  "manufacturer (mergeRecord old t nm mf r) =
     first_nonempty ((case old of None \<Rightarrow> [] | Some d \<Rightarrow> [manufacturer d]) @ [mf])"
  by (simp add: mergeRecord_def newRecord_def updateRecord_def Let_def split: option.splits)

lemma mergeRecord_rssi:
  "rssi (mergeRecord old t nm mf r) =
     (case old of None \<Rightarrow> r | Some d \<Rightarrow> if \<bar>r\<bar> < \<bar>rssi d\<bar> then r else rssi d)"
  by (simp add: mergeRecord_def newRecord_def updateRecord_def Let_def split: option.splits)

lemma mergeRecord_firstTime:
  "firstTime (mergeRecord old t nm mf r) =
     (case old of None \<Rightarrow> t | Some d \<Rightarrow> if fl_lt t (firstTime d) then t else firstTime d)"
  by (simp add: mergeRecord_def newRecord_def updateRecord_def Let_def split: option.splits)

lemma mergeRecord_lastTime:
  "lastTime (mergeRecord old t nm mf r) =
     (case old of None \<Rightarrow> t
      | Some d \<Rightarrow> if fl_lt t (firstTime d) then lastTime d
                  else if fl_lt (lastTime d) t then t else lastTime d)"
  by (simp add: mergeRecord_def newRecord_def updateRecord_def fl_gt_def Let_def
           split: option.splits)

lemma mergeRecord_time_ok:
  "(\<forall>d. old = Some d \<longrightarrow> time_ok d) \<Longrightarrow> time_ok (mergeRecord old t nm mf r)"
  by (cases old)
     (auto simp: time_ok_def mergeRecord_firstTime mergeRecord_lastTime fl_lt_def)

lemma mergeRecord_ordered:
  assumes "\<forall>d. old = Some d \<longrightarrow> fl_le (firstTime d) (lastTime d)"
    and "old = None \<longrightarrow> \<not> is_nan t"
  shows "fl_le (firstTime (mergeRecord old t nm mf r)) (lastTime (mergeRecord old t nm mf r))"
  using assms
  by (cases old) (auto simp: mergeRecord_firstTime mergeRecord_lastTime fl_lt_def fl_le_def)

lemma mergeRecord_bounds:
  assumes "\<forall>d. old = Some d \<longrightarrow> fl_le (firstTime d) (lastTime d)" and "\<not> is_nan t"
  shows "fl_le (firstTime (mergeRecord old t nm mf r)) t"
    and "fl_le t (lastTime (mergeRecord old t nm mf r))"
    and "\<forall>d. old = Some d \<longrightarrow> fl_le (firstTime (mergeRecord old t nm mf r)) (firstTime d)
                              \<and> fl_le (lastTime d) (lastTime (mergeRecord old t nm mf r))"
proof -
  show "fl_le (firstTime (mergeRecord old t nm mf r)) t"
    using assms by (cases old) (auto simp: mergeRecord_firstTime fl_lt_def fl_le_def)
  show "fl_le t (lastTime (mergeRecord old t nm mf r))"
    using assms by (cases old) (auto simp: mergeRecord_lastTime fl_lt_def fl_le_def)
  show "\<forall>d. old = Some d \<longrightarrow> fl_le (firstTime (mergeRecord old t nm mf r)) (firstTime d)
                              \<and> fl_le (lastTime d) (lastTime (mergeRecord old t nm mf r))"
    using assms
    by (cases old) (auto simp: mergeRecord_firstTime mergeRecord_lastTime fl_lt_def fl_le_def)
qed

lemma mergeRecord_time_mem:
  "firstTime (mergeRecord old t nm mf r) = t \<or>
     (\<exists>d. old = Some d \<and> firstTime (mergeRecord old t nm mf r) = firstTime d)"
  "lastTime (mergeRecord old t nm mf r) = t \<or>
     (\<exists>d. old = Some d \<and> lastTime (mergeRecord old t nm mf r) = lastTime d)"
  by (cases old, simp_all add: mergeRecord_firstTime mergeRecord_lastTime)+

lemma updateRecord_again:
  assumes "\<forall>d. old = Some d \<longrightarrow> time_ok d"
  shows "updateRecord (mergeRecord old t nm mf r) t nm mf r = mergeRecord old t nm mf r"
proof -
  let ?d = "mergeRecord old t nm mf r"
  have 1: "\<not> fl_lt t (firstTime ?d)"
    by (cases old) (auto simp: mergeRecord_firstTime fl_lt_def)
  have 2: "\<not> fl_gt t (lastTime ?d)"
    using assms
    by (cases old) (auto simp: mergeRecord_lastTime fl_gt_def fl_lt_def time_ok_def)
  have 3: "name ?d = [] \<longrightarrow> nm = []"
    by (cases old) (auto simp: mergeRecord_name)
  have 4: "manufacturer ?d = [] \<longrightarrow> mf = []"
    by (cases old) (auto simp: mergeRecord_manufacturer)
  have 5: "\<not> \<bar>r\<bar> < \<bar>rssi ?d\<bar>"
    by (cases old) (auto simp: mergeRecord_rssi)
  show ?thesis
    using 1 2 3 4 5 by (simp add: updateRecord_def [of ?d] Let_def)
qed

subsection \<open>Runs of calls\<close>

lemma run_step:
  assumes "addDeviceRecords devs (c # cs) = Inr devs'"
  obtains d1 where "addCandidate devs c = Inr d1" and "addDeviceRecords d1 cs = Inr devs'"
  using assms by (auto split: sum.splits)

lemma run_record:
  assumes "addDeviceRecords devs cs = Inr devs'" and "m \<noteq> []"
  shows "map_of devs' m = recordAfter (map_of devs m) (for_mac m cs)"
  using assms
proof (induction cs arbitrary: devs)
  case Nil
  then show ?case by (simp add: for_mac_def)
next
  case (Cons c cs)
  from Cons.prems(1) obtain d1 where step: "addCandidate devs c = Inr d1"
    and rest: "addDeviceRecords d1 cs = Inr devs'"
    by (rule run_step)
  have ih: "map_of devs' m = recordAfter (map_of d1 m) (for_mac m cs)"
    using Cons.IH [OF rest Cons.prems(2)] .
  show ?case
  proof (cases "upper (strip (c_mac c)) = m")
    case True
    from addCandidate_same [OF step True Cons.prems(2)] ih True
    show ?thesis by (auto simp: for_mac_def)
  next
    case False
    from addCandidate_other [OF step False] ih False
    show ?thesis by (simp add: for_mac_def)
  qed
qed

lemma run_exists:
  assumes "addDeviceRecords devs cs = Inr devs'" and "m \<noteq> []"
    and "map_of devs m \<noteq> None \<or> for_mac m cs \<noteq> []"
  shows "map_of devs' m \<noteq> None"
  using assms
proof (induction cs arbitrary: devs)
  case Nil
  then show ?case by (simp add: for_mac_def)
next
  case (Cons c cs)
  from Cons.prems(1) obtain d1 where step: "addCandidate devs c = Inr d1"
    and rest: "addDeviceRecords d1 cs = Inr devs'"
    by (rule run_step)
  show ?case
  proof (cases "upper (strip (c_mac c)) = m")
    case True
    from addCandidate_same [OF step True Cons.prems(2)]
    have "map_of d1 m \<noteq> None" by auto
    then show ?thesis using Cons.IH [OF rest Cons.prems(2)] by simp
  next
    case False
    from addCandidate_other [OF step False] Cons.prems(3) False
    have "map_of d1 m \<noteq> None \<or> for_mac m cs \<noteq> []" by (simp add: for_mac_def)
    then show ?thesis using Cons.IH [OF rest Cons.prems(2)] by simp
  qed
qed

lemma run_time_ok:
  "addDeviceRecords devs cs = Inr devs' \<Longrightarrow> \<forall>p\<in>set devs. time_ok (snd p)
     \<Longrightarrow> \<forall>p\<in>set devs'. time_ok (snd p)"
proof (induction cs arbitrary: devs)
  case Nil
  then show ?case by simp
next
  case (Cons c cs)
  from Cons.prems(1) obtain d1 where step: "addCandidate devs c = Inr d1"
    and rest: "addDeviceRecords d1 cs = Inr devs'"
    by (rule run_step)
  have "\<forall>p\<in>set d1. time_ok (snd p)"
    by (rule add_preserves [OF step [unfolded addCandidate_def] Cons.prems(2)])
       (rule mergeRecord_time_ok)
  from Cons.IH [OF rest this] show ?case .
qed

lemma recordAfter_step:
  assumes "recordAfter old (c # cs) = Some d'"
  obtains t r where "py_float (c_timestamp c) = Some t" and "rssi_value (c_rssi c) = Some r"
    and "recordAfter (Some (mergeRecord old t (c_name c) (c_manufacturer c) r)) cs = Some d'"
  using assms by (auto split: option.splits)

lemma recordAfter_name:
  "recordAfter old cs = Some d' \<Longrightarrow>
   name d' = first_nonempty ((case old of None \<Rightarrow> [] | Some d \<Rightarrow> [name d]) @ map c_name cs)"
proof (induction cs arbitrary: old)
  case Nil
  then show ?case by auto
next
  case (Cons c cs)
  from Cons.prems obtain t r
    where rest: "recordAfter (Some (mergeRecord old t (c_name c) (c_manufacturer c) r)) cs = Some d'"
    by (rule recordAfter_step)
  from Cons.IH [OF rest] show ?case
    by (cases old) (simp_all add: mergeRecord_name)
qed

lemma recordAfter_manufacturer:
  "recordAfter old cs = Some d' \<Longrightarrow>
   manufacturer d' =
     first_nonempty ((case old of None \<Rightarrow> [] | Some d \<Rightarrow> [manufacturer d]) @ map c_manufacturer cs)"
proof (induction cs arbitrary: old)
  case Nil
  then show ?case by auto
next
  case (Cons c cs)
  from Cons.prems obtain t r
    where rest: "recordAfter (Some (mergeRecord old t (c_name c) (c_manufacturer c) r)) cs = Some d'"
    by (rule recordAfter_step)
  from Cons.IH [OF rest] show ?case
    by (cases old) (simp_all add: mergeRecord_manufacturer)
qed

lemma recordAfter_rssi_bound:
  "recordAfter old cs = Some d' \<Longrightarrow>
   (\<forall>d. old = Some d \<longrightarrow> \<bar>rssi d'\<bar> \<le> \<bar>rssi d\<bar>) \<and>
   (\<forall>c\<in>set cs. \<exists>r. rssi_value (c_rssi c) = Some r \<and> \<bar>rssi d'\<bar> \<le> \<bar>r\<bar>)"
proof (induction cs arbitrary: old)
  case Nil
  then show ?case by auto
next
  case (Cons c cs)
  from Cons.prems obtain t r where p: "rssi_value (c_rssi c) = Some r"
    and rest: "recordAfter (Some (mergeRecord old t (c_name c) (c_manufacturer c) r)) cs = Some d'"
    by (rule recordAfter_step)
  from Cons.IH [OF rest]
  have b: "\<bar>rssi d'\<bar> \<le> \<bar>rssi (mergeRecord old t (c_name c) (c_manufacturer c) r)\<bar>"
    and a: "\<forall>c\<in>set cs. \<exists>r. rssi_value (c_rssi c) = Some r \<and> \<bar>rssi d'\<bar> \<le> \<bar>r\<bar>"
    by auto
  from b have "\<bar>rssi d'\<bar> \<le> \<bar>r\<bar>"
    by (cases old) (auto simp: mergeRecord_rssi split: if_splits)
  moreover from b have "\<forall>d. old = Some d \<longrightarrow> \<bar>rssi d'\<bar> \<le> \<bar>rssi d\<bar>"
    by (auto simp: mergeRecord_rssi split: if_splits)
  ultimately show ?case using a p by auto
qed

lemma recordAfter_rssi_mem:
  "recordAfter old cs = Some d' \<Longrightarrow>
   (\<exists>d. old = Some d \<and> rssi d' = rssi d) \<or>
   (\<exists>c\<in>set cs. rssi_value (c_rssi c) = Some (rssi d'))"
proof (induction cs arbitrary: old)
  case Nil
  then show ?case by auto
next
  case (Cons c cs)
  from Cons.prems obtain t r where p: "rssi_value (c_rssi c) = Some r"
    and rest: "recordAfter (Some (mergeRecord old t (c_name c) (c_manufacturer c) r)) cs = Some d'"
    by (rule recordAfter_step)
  from Cons.IH [OF rest]
  consider "rssi d' = rssi (mergeRecord old t (c_name c) (c_manufacturer c) r)"
    | "\<exists>c\<in>set cs. rssi_value (c_rssi c) = Some (rssi d')" by auto
  then show ?case
  proof cases
    case 1
    then show ?thesis using p by (cases old) (auto simp: mergeRecord_rssi split: if_splits)
  next
    case 2
    then show ?thesis by auto
  qed
qed

lemma recordAfter_time_bounds:
  assumes "recordAfter old cs = Some d'"
    and "\<forall>d. old = Some d \<longrightarrow> fl_le (firstTime d) (lastTime d)"
    and "\<forall>c\<in>set cs. \<forall>t. py_float (c_timestamp c) = Some t \<longrightarrow> \<not> is_nan t"
  shows "(\<forall>d. old = Some d \<longrightarrow> fl_le (firstTime d') (firstTime d) \<and> fl_le (lastTime d) (lastTime d')) \<and>
         (\<forall>c\<in>set cs. \<exists>t. py_float (c_timestamp c) = Some t \<and>
            fl_le (firstTime d') t \<and> fl_le t (lastTime d'))"
  using assms
proof (induction cs arbitrary: old)
  case Nil
  then show ?case by (auto simp: fl_le_def)
next
  case (Cons c cs)
  from Cons.prems(1) obtain t r where t: "py_float (c_timestamp c) = Some t"
    and rest: "recordAfter (Some (mergeRecord old t (c_name c) (c_manufacturer c) r)) cs = Some d'"
    by (rule recordAfter_step)
  let ?rec = "mergeRecord old t (c_name c) (c_manufacturer c) r"
  from t Cons.prems(3) have nn: "\<not> is_nan t" by simp
  have ord: "\<forall>d. Some ?rec = Some d \<longrightarrow> fl_le (firstTime d) (lastTime d)"
    using mergeRecord_ordered [of old t] Cons.prems(2) nn by simp
  from Cons.prems(3)
  have tl: "\<forall>c\<in>set cs. \<forall>t. py_float (c_timestamp c) = Some t \<longrightarrow> \<not> is_nan t"
    by simp
  from Cons.IH [OF rest ord tl]
  have f: "fl_le (firstTime d') (firstTime ?rec)" and l: "fl_le (lastTime ?rec) (lastTime d')"
    and others: "\<forall>c\<in>set cs. \<exists>t. py_float (c_timestamp c) = Some t \<and>
                   fl_le (firstTime d') t \<and> fl_le t (lastTime d')"
    by auto
  note b = mergeRecord_bounds [OF Cons.prems(2) nn, of "c_name c" "c_manufacturer c" r]
  have "fl_le (firstTime d') t" using f b(1) by (rule fl_le_trans)
  moreover have "fl_le t (lastTime d')" using b(2) l by (rule fl_le_trans)
  moreover have "\<forall>d. old = Some d \<longrightarrow>
                   fl_le (firstTime d') (firstTime d) \<and> fl_le (lastTime d) (lastTime d')"
    using b(3) f l by (blast intro: fl_le_trans)
  ultimately show ?case using others t by simp
qed

lemma recordAfter_time_mem:
  assumes "recordAfter old cs = Some d'"
  shows "((\<exists>d. old = Some d \<and> firstTime d' = firstTime d) \<or>
          (\<exists>c\<in>set cs. py_float (c_timestamp c) = Some (firstTime d'))) \<and>
         ((\<exists>d. old = Some d \<and> lastTime d' = lastTime d) \<or>
          (\<exists>c\<in>set cs. py_float (c_timestamp c) = Some (lastTime d')))"
  using assms
proof (induction cs arbitrary: old)
  case Nil
  then show ?case by auto
next
  case (Cons c cs)
  from Cons.prems(1) obtain t r where t: "py_float (c_timestamp c) = Some t"
    and rest: "recordAfter (Some (mergeRecord old t (c_name c) (c_manufacturer c) r)) cs = Some d'"
    by (rule recordAfter_step)
  from Cons.IH [OF rest] mergeRecord_time_mem [of old t "c_name c" "c_manufacturer c" r] t
  show ?case by auto
qed

subsection \<open>The parser loop\<close>










subsection \<open>The rows of the report\<close>

lemma make_row_fields:
  "r_mac (make_row (mac, d)) = mac"
  "r_firstTime (make_row (mac, d)) = firstTime d"
  "r_lastTime (make_row (mac, d)) = lastTime d"
  "r_name (make_row (mac, d)) = (if name d \<noteq> [] then name d else mac)"
  "r_manufacturer (make_row (mac, d)) = (if manufacturer d \<noteq> [] then manufacturer d else ''Unknown'')"
  "r_rssi (make_row (mac, d)) = (if 255 < \<bar>rssi d\<bar> then CellStr ''Unknown'' else CellInt (rssi d))"
  by (simp_all add: make_row_def Let_def)

section \<open>The claims about the aggregator\<close>




text \<open>
  C2, as stated, fails: \<^verbatim>\<open>float("nan")\<close> is a float, and a record created with it
  keeps it as both bounds, since every comparison with it is false. After the
  timestamps \<^verbatim>\<open>nan\<close> and \<^verbatim>\<open>1\<close> the stored bounds are not below or above \<^verbatim>\<open>1.0\<close>.
\<close>

theorem time_bounds_counterexample:
  "addDeviceRecords [] [cand ''nan'' ''AA'' '''' '''' '''', cand ''1'' ''AA'' '''' '''' '''']
     = Inr [(''AA'', \<lparr>firstTime = 0x7FF8000000000000, lastTime = 0x7FF8000000000000,
                     name = '''', manufacturer = '''', rssi = 5000\<rparr>)] \<and>
   py_float ''nan'' = Some 0x7FF8000000000000 \<and> py_float ''1'' = Some 0x3FF0000000000000 \<and>
   \<not> fl_le 0x7FF8000000000000 0x3FF0000000000000 \<and>
   \<not> fl_le 0x3FF0000000000000 0x7FF8000000000000"
  by code_simp

text \<open>
  C2, amended. After a run of returning calls on a device list in which \<open>m\<close> was not a
  key, with one candidate for \<open>m\<close> at least and no NaN among the timestamps merged
  for \<open>m\<close>, the record of \<open>m\<close> has as \<^verbatim>\<open>firstTime\<close> the minimum and as
  \<^verbatim>\<open>lastTime\<close> the maximum of these timestamps: each is one of them, and every
  one of them lies between the two.
\<close>

theorem time_bounds:
  assumes "addDeviceRecords devs cs = Inr devs'" and "m \<noteq> []"
    and "map_of devs m = None" and "for_mac m cs \<noteq> []"
    and "\<forall>c\<in>set (for_mac m cs). \<forall>t. py_float (c_timestamp c) = Some t \<longrightarrow> \<not> is_nan t"
  shows "\<exists>d'. map_of devs' m = Some d' \<and>
           (\<exists>c\<in>set (for_mac m cs). py_float (c_timestamp c) = Some (firstTime d')) \<and>
           (\<exists>c\<in>set (for_mac m cs). py_float (c_timestamp c) = Some (lastTime d')) \<and>
           (\<forall>c\<in>set (for_mac m cs). \<exists>t. py_float (c_timestamp c) = Some t \<and>
               fl_le (firstTime d') t \<and> fl_le t (lastTime d'))"
proof -
  from run_exists [OF assms(1,2)] assms(4) obtain d' where d': "map_of devs' m = Some d'"
    by auto
  with run_record [OF assms(1,2)] assms(3)
  have r: "recordAfter None (for_mac m cs) = Some d'" by simp
  from recordAfter_time_mem [OF r] recordAfter_time_bounds [OF r _ assms(5)] d'
  show ?thesis by simp
qed

theorem time_bounds_witness:
  "addDeviceRecords []
     [cand ''2'' ''aa'' '''' '''' '''', cand ''1'' ''AA'' '''' '''' '''',
      cand ''3'' '' aa '' '''' '''' '''']
     = Inr [(''AA'', \<lparr>firstTime = 0x3FF0000000000000, lastTime = 0x4008000000000000,
                     name = '''', manufacturer = '''', rssi = 5000\<rparr>)] \<and>
   (\<exists>d'. map_of [(''AA'', \<lparr>firstTime = 0x3FF0000000000000, lastTime = 0x4008000000000000,
                            name = '''', manufacturer = '''', rssi = 5000\<rparr>)] ''AA'' = Some d' \<and>
      py_float ''1'' = Some (firstTime d') \<and> py_float ''3'' = Some (lastTime d') \<and>
      fl_le (firstTime d') 0x4000000000000000 \<and> fl_le 0x4000000000000000 (lastTime d'))"
proof -
  let ?cs = "[cand ''2'' ''aa'' '''' '''' '''', cand ''1'' ''AA'' '''' '''' '''',
              cand ''3'' '' aa '' '''' '''' '''']"
  let ?r = "[(''AA'', \<lparr>firstTime = 0x3FF0000000000000, lastTime = 0x4008000000000000,
                      name = '''', manufacturer = '''', rssi = 5000 :: int\<rparr>)]"
  have run: "addDeviceRecords [] ?cs = Inr ?r" by code_simp
  have ne: "''AA'' \<noteq> []" by simp
  have unseen: "map_of ([] :: devices) ''AA'' = None" by simp
  have fm: "for_mac ''AA'' ?cs = ?cs" by code_simp
  have p1: "py_float ''1'' = Some 0x3FF0000000000000" by code_simp
  have p2: "py_float ''2'' = Some 0x4000000000000000" by code_simp
  have p3: "py_float ''3'' = Some 0x4008000000000000" by code_simp
  have nn: "\<not> is_nan 0x3FF0000000000000" "\<not> is_nan 0x4000000000000000"
    "\<not> is_nan 0x4008000000000000"
    by (simp_all add: is_nan_def)
  have some: "for_mac ''AA'' ?cs \<noteq> []" by (simp add: fm)
  have ok: "\<forall>c\<in>set (for_mac ''AA'' ?cs). \<forall>t. py_float (c_timestamp c) = Some t \<longrightarrow> \<not> is_nan t"
    unfolding fm by (simp add: cand_def p1 p2 p3 nn)
  from time_bounds [OF run ne unseen some ok] run p1 p2 p3
  show ?thesis unfolding fm by (simp add: cand_def)
qed




text \<open>
  C4. First non-empty wins, for the name and for the manufacturer on their own. After a
  run of returning calls on a device list in which \<open>m\<close> was not a key, the record of
  \<open>m\<close> has the first non-empty name, and the first non-empty manufacturer, of the
  candidates merged for \<open>m\<close> (empty if there is none); and a non-empty name or
  manufacturer that is stored stays through every run. The instance that follows is
  the run of the names \<^verbatim>\<open>""\<close>, \<^verbatim>\<open>"Alice"\<close>, \<^verbatim>\<open>"Bob"\<close>, which ends with
  \<^verbatim>\<open>"Alice"\<close>.
\<close>

theorem first_nonempty_wins:
  assumes "addDeviceRecords devs cs = Inr devs'" and "m \<noteq> []"
  shows "(map_of devs m = None \<and> for_mac m cs \<noteq> [] \<longrightarrow>
            (\<exists>d'. map_of devs' m = Some d' \<and>
                   name d' = first_nonempty (map c_name (for_mac m cs)) \<and>
                   manufacturer d' = first_nonempty (map c_manufacturer (for_mac m cs)))) \<and>
         (\<forall>d. map_of devs m = Some d \<longrightarrow>
            (\<exists>d'. map_of devs' m = Some d' \<and>
                   (name d \<noteq> [] \<longrightarrow> name d' = name d) \<and>
                   (manufacturer d \<noteq> [] \<longrightarrow> manufacturer d' = manufacturer d)))"
proof -
  have rec: "map_of devs' m = recordAfter (map_of devs m) (for_mac m cs)"
    using run_record [OF assms] .
  have a: "\<exists>d'. map_of devs' m = Some d' \<and>
                   name d' = first_nonempty (map c_name (for_mac m cs)) \<and>
                   manufacturer d' = first_nonempty (map c_manufacturer (for_mac m cs))"
    if "map_of devs m = None" "for_mac m cs \<noteq> []"
  proof -
    from run_exists [OF assms] that obtain d' where d': "map_of devs' m = Some d'" by auto
    with rec that have "recordAfter None (for_mac m cs) = Some d'" by simp
    from recordAfter_name [OF this] recordAfter_manufacturer [OF this] d'
    show ?thesis by simp
  qed
  have b: "\<exists>d'. map_of devs' m = Some d' \<and>
                   (name d \<noteq> [] \<longrightarrow> name d' = name d) \<and>
                   (manufacturer d \<noteq> [] \<longrightarrow> manufacturer d' = manufacturer d)"
    if "map_of devs m = Some d" for d
  proof -
    from run_exists [OF assms] that obtain d' where d': "map_of devs' m = Some d'" by auto
    with rec that have "recordAfter (Some d) (for_mac m cs) = Some d'" by simp
    from recordAfter_name [OF this] recordAfter_manufacturer [OF this] d'
    show ?thesis by simp
  qed
  from a b show ?thesis by blast
qed

theorem first_nonempty_wins_witness:
  "addDeviceRecords []
     [cand ''1'' ''aa'' '''' '''' '''', cand ''2'' ''aa'' ''Alice'' '''' '''',
      cand ''3'' ''aa'' ''Bob'' ''Acme'' '''']
     = Inr [(''AA'', \<lparr>firstTime = 0x3FF0000000000000, lastTime = 0x4008000000000000,
                     name = ''Alice'', manufacturer = ''Acme'', rssi = 5000\<rparr>)] \<and>
   (\<exists>d'. map_of [(''AA'', \<lparr>firstTime = 0x3FF0000000000000, lastTime = 0x4008000000000000,
                            name = ''Alice'', manufacturer = ''Acme'', rssi = 5000\<rparr>)] ''AA''
            = Some d' \<and> name d' = ''Alice'' \<and> manufacturer d' = ''Acme'') \<and>
   addDeviceRecords
     [(''AA'', \<lparr>firstTime = 0x3FF0000000000000, lastTime = 0x4008000000000000,
               name = ''Alice'', manufacturer = ''Acme'', rssi = 5000\<rparr>)]
     [cand ''4'' ''aa'' ''Carol'' ''Other'' '''']
     = Inr [(''AA'', \<lparr>firstTime = 0x3FF0000000000000, lastTime = 0x4010000000000000,
                     name = ''Alice'', manufacturer = ''Acme'', rssi = 5000\<rparr>)] \<and>
   (\<exists>d'. map_of [(''AA'', \<lparr>firstTime = 0x3FF0000000000000, lastTime = 0x4010000000000000,
                            name = ''Alice'', manufacturer = ''Acme'', rssi = 5000\<rparr>)] ''AA''
            = Some d' \<and> name d' = ''Alice'' \<and> manufacturer d' = ''Acme'')"
proof -
  let ?cs = "[cand ''1'' ''aa'' '''' '''' '''', cand ''2'' ''aa'' ''Alice'' '''' '''',
              cand ''3'' ''aa'' ''Bob'' ''Acme'' '''']"
  let ?r = "[(''AA'', \<lparr>firstTime = 0x3FF0000000000000, lastTime = 0x4008000000000000,
                      name = ''Alice'', manufacturer = ''Acme'', rssi = 5000 :: int\<rparr>)]"
  let ?cs2 = "[cand ''4'' ''aa'' ''Carol'' ''Other'' '''']"
  let ?r2 = "[(''AA'', \<lparr>firstTime = 0x3FF0000000000000, lastTime = 0x4010000000000000,
                      name = ''Alice'', manufacturer = ''Acme'', rssi = 5000 :: int\<rparr>)]"
  have run: "addDeviceRecords [] ?cs = Inr ?r" by code_simp
  have run2: "addDeviceRecords ?r ?cs2 = Inr ?r2" by code_simp
  have ne: "''AA'' \<noteq> []" by simp
  have fm: "for_mac ''AA'' ?cs = ?cs" by code_simp
  from first_nonempty_wins [OF run ne] first_nonempty_wins [OF run2 ne] run run2
  show ?thesis unfolding fm by (simp add: cand_def)
qed

text \<open>
  C5. Strongest signal wins. After a run of returning calls on a device list in which
  \<open>m\<close> was not a key, with one candidate for \<open>m\<close> at least, the stored rssi of \<open>m\<close>
  is one of the values merged for \<open>m\<close> (5000 for an empty string), and its absolute
  value is the minimum of their absolute values. The instance that follows is the run
  of \<^verbatim>\<open>-80\<close>, \<^verbatim>\<open>-45\<close>, \<^verbatim>\<open>-90\<close>, which ends with \<^verbatim>\<open>-45\<close>.
\<close>

theorem strongest_signal_wins:
  assumes "addDeviceRecords devs cs = Inr devs'" and "m \<noteq> []"
    and "map_of devs m = None" and "for_mac m cs \<noteq> []"
  shows "\<exists>d'. map_of devs' m = Some d' \<and>
           (\<exists>c\<in>set (for_mac m cs). rssi_value (c_rssi c) = Some (rssi d')) \<and>
           (\<forall>c\<in>set (for_mac m cs). \<exists>r. rssi_value (c_rssi c) = Some r \<and> \<bar>rssi d'\<bar> \<le> \<bar>r\<bar>) \<and>
           \<bar>rssi d'\<bar> = Min ((\<lambda>c. \<bar>case rssi_value (c_rssi c) of Some r \<Rightarrow> r | None \<Rightarrow> 0\<bar>)
                              ` set (for_mac m cs))"
proof -
  from run_exists [OF assms(1,2)] assms(4) obtain d' where d': "map_of devs' m = Some d'"
    by auto
  with run_record [OF assms(1,2)] assms(3)
  have r: "recordAfter None (for_mac m cs) = Some d'" by simp
  from recordAfter_rssi_mem [OF r]
  have mem: "\<exists>c\<in>set (for_mac m cs). rssi_value (c_rssi c) = Some (rssi d')" by simp
  from recordAfter_rssi_bound [OF r]
  have bnd: "\<forall>c\<in>set (for_mac m cs). \<exists>r. rssi_value (c_rssi c) = Some r \<and> \<bar>rssi d'\<bar> \<le> \<bar>r\<bar>"
    by simp
  let ?f = "\<lambda>c. \<bar>case rssi_value (c_rssi c) of Some r \<Rightarrow> r | None \<Rightarrow> 0\<bar>"
  have "Min (?f ` set (for_mac m cs)) = \<bar>rssi d'\<bar>"
  proof (rule Min_eqI)
    show "finite (?f ` set (for_mac m cs))" by simp
    show "\<bar>rssi d'\<bar> \<le> y" if "y \<in> ?f ` set (for_mac m cs)" for y
      using that bnd by force
    show "\<bar>rssi d'\<bar> \<in> ?f ` set (for_mac m cs)"
      using mem by force
  qed
  with d' mem bnd show ?thesis by simp
qed

theorem strongest_signal_wins_witness:
  "addDeviceRecords []
     [cand ''1'' ''aa'' '''' '''' ''-80'', cand ''2'' ''aa'' '''' '''' ''-45'',
      cand ''3'' ''aa'' '''' '''' ''-90'']
     = Inr [(''AA'', \<lparr>firstTime = 0x3FF0000000000000, lastTime = 0x4008000000000000,
                     name = '''', manufacturer = '''', rssi = - 45\<rparr>)] \<and>
   (\<exists>d'. map_of [(''AA'', \<lparr>firstTime = 0x3FF0000000000000, lastTime = 0x4008000000000000,
                            name = '''', manufacturer = '''', rssi = - 45\<rparr>)] ''AA'' = Some d' \<and>
      rssi_value ''-45'' = Some (rssi d') \<and> \<bar>rssi d'\<bar> \<le> \<bar>- 80\<bar> \<and> \<bar>rssi d'\<bar> \<le> \<bar>- 90\<bar>)"
proof -
  let ?cs = "[cand ''1'' ''aa'' '''' '''' ''-80'', cand ''2'' ''aa'' '''' '''' ''-45'',
              cand ''3'' ''aa'' '''' '''' ''-90'']"
  let ?r = "[(''AA'', \<lparr>firstTime = 0x3FF0000000000000, lastTime = 0x4008000000000000,
                      name = '''', manufacturer = '''', rssi = - 45 :: int\<rparr>)]"
  have run: "addDeviceRecords [] ?cs = Inr ?r" by code_simp
  have ne: "''AA'' \<noteq> []" by simp
  have unseen: "map_of ([] :: devices) ''AA'' = None" by simp
  have fm: "for_mac ''AA'' ?cs = ?cs" by code_simp
  have some: "for_mac ''AA'' ?cs \<noteq> []" by (simp add: fm)
  have v: "rssi_value ''-45'' = Some (- 45)" by code_simp
  from strongest_signal_wins [OF run ne unseen some] run v
  show ?thesis by simp
qed

text \<open>
  C7. Merging is idempotent on a repeated candidate. In every state that the aggregator
  reaches from the empty device list by returning calls, two calls in a row with the
  same candidate give what one call gives: the same device list, or the same exception.
  When the key was not there before, the record has the one timestamp as both bounds.
\<close>

theorem merge_idempotent:
  assumes "addDeviceRecords [] cs = Inr devs"
  shows "addDeviceRecords devs [c, c] = addDeviceRecords devs [c] \<and>
         (\<forall>devs'. addDeviceRecords devs [c, c] = Inr devs' \<longrightarrow>
            upper (strip (c_mac c)) \<noteq> [] \<longrightarrow> map_of devs (upper (strip (c_mac c))) = None \<longrightarrow>
            (\<exists>d. map_of devs' (upper (strip (c_mac c))) = Some d \<and>
                 py_float (c_timestamp c) = Some (firstTime d) \<and> lastTime d = firstTime d))"
proof -
  let ?m = "upper (strip (c_mac c))"
  have ok: "\<forall>p\<in>set devs. time_ok (snd p)"
    using run_time_ok [OF assms] by simp
  have twice: "addDeviceRecords devs [c, c] = addDeviceRecords devs [c]"
  proof (cases "addCandidate devs c")
    case (Inl e)
    then show ?thesis by simp
  next
    case (Inr d1)
    show ?thesis
    proof (cases "?m = []")
      case True
      with Inr have "d1 = devs" by (simp add: addCandidate_def add_empty)
      with Inr show ?thesis by simp
    next
      case False
      from add_returns [OF Inr [unfolded addCandidate_def] False]
      obtain t r where t: "py_float (c_timestamp c) = Some t"
        and r: "rssi_value (c_rssi c) = Some r"
        and d1: "d1 = AList.update ?m
                        (mergeRecord (map_of devs ?m) t (c_name c) (c_manufacturer c) r) devs"
        by auto
      let ?rec = "mergeRecord (map_of devs ?m) t (c_name c) (c_manufacturer c) r"
      have old: "\<forall>d. map_of devs ?m = Some d \<longrightarrow> time_ok d"
        using ok by (metis map_of_SomeD snd_conv)
      have look: "map_of d1 ?m = Some ?rec" by (simp add: d1 AList.update_conv')
      have "addCandidate d1 c =
              Inr (AList.update ?m (updateRecord ?rec t (c_name c) (c_manufacturer c) r) d1)"
        using False t r look by (simp add: addCandidate_def addDeviceRecord_def Let_def)
      also have "\<dots> = Inr d1"
        by (simp add: updateRecord_again [OF old] d1 AList.update_last)
      finally show ?thesis using Inr by simp
    qed
  qed
  have fresh: "\<exists>d. map_of devs' ?m = Some d \<and> py_float (c_timestamp c) = Some (firstTime d)
                   \<and> lastTime d = firstTime d"
    if run: "addDeviceRecords devs [c, c] = Inr devs'" and ne: "?m \<noteq> []"
      and unseen: "map_of devs ?m = None"
    for devs'
  proof -
    from run twice have one: "addCandidate devs c = Inr devs'" by (simp split: sum.splits)
    from addCandidate_same [OF one refl ne] unseen
    show ?thesis by (auto simp: mergeRecord_def newRecord_def)
  qed
  from twice fresh show ?thesis by blast
qed

theorem merge_idempotent_witness:
  "addDeviceRecords [] [cand ''1'' ''aa'' '''' '''' ''-80'']
     = Inr [(''AA'', \<lparr>firstTime = 0x3FF0000000000000, lastTime = 0x3FF0000000000000,
                     name = '''', manufacturer = '''', rssi = - 80\<rparr>)] \<and>
   addDeviceRecords
     [(''AA'', \<lparr>firstTime = 0x3FF0000000000000, lastTime = 0x3FF0000000000000,
               name = '''', manufacturer = '''', rssi = - 80\<rparr>)]
     [cand ''3'' ''bb'' ''n'' '''' ''-45'', cand ''3'' ''bb'' ''n'' '''' ''-45'']
   = addDeviceRecords
     [(''AA'', \<lparr>firstTime = 0x3FF0000000000000, lastTime = 0x3FF0000000000000,
               name = '''', manufacturer = '''', rssi = - 80\<rparr>)]
     [cand ''3'' ''bb'' ''n'' '''' ''-45'']"
proof -
  let ?r = "[(''AA'', \<lparr>firstTime = 0x3FF0000000000000, lastTime = 0x3FF0000000000000,
                      name = '''', manufacturer = '''', rssi = - 80 :: int\<rparr>)]"
  have run: "addDeviceRecords [] [cand ''1'' ''aa'' '''' '''' ''-80''] = Inr ?r" by code_simp
  from merge_idempotent [OF run, of "cand ''3'' ''bb'' ''n'' '''' ''-45''"] run
  show ?thesis by simp
qed





section \<open>The claims about the parser and the report\<close>




text \<open>
  C9. The rows of a report. Each device has one row; the rssi cell is the string
  \<^verbatim>\<open>Unknown\<close> exactly when the absolute value of the stored rssi exceeds 255 and
  the stored integer otherwise; the name falls back to the MAC and the manufacturer to
  \<^verbatim>\<open>Unknown\<close>; the rows are sorted by the string \<^verbatim>\<open><rssi cell> <mac>\<close>, compared as
  text. The instance that follows has the rows of \<^verbatim>\<open>-45\<close>, \<^verbatim>\<open>-80\<close>,
  \<^verbatim>\<open>-9\<close>, \<^verbatim>\<open>255\<close> and two unknown values in this order.
\<close>

theorem report_rows:
  assumes "report devs = Some rows"
  shows "sorted (map row_key rows) \<and>
         mset rows = mset (map make_row devs) \<and>
         (\<forall>x\<in>set rows. \<exists>mac d. (mac, d) \<in> set devs \<and>
            r_mac x = mac \<and> r_firstTime x = firstTime d \<and> r_lastTime x = lastTime d \<and>
            r_name x = (if name d \<noteq> [] then name d else mac) \<and>
            r_manufacturer x = (if manufacturer d \<noteq> [] then manufacturer d else ''Unknown'') \<and>
            (r_rssi x = CellStr ''Unknown'' \<longleftrightarrow> 255 < \<bar>rssi d\<bar>) \<and>
            (\<not> 255 < \<bar>rssi d\<bar> \<longrightarrow> r_rssi x = CellInt (rssi d)) \<and>
            row_key x = (if 255 < \<bar>rssi d\<bar> then ''Unknown'' else str_int (rssi d)) @ '' '' @ mac)"
proof -
  from assms have rows: "rows = sort_key row_key (map make_row devs)"
    by (simp add: report_def split: if_splits)
  have 1: "sorted (map row_key rows)" by (simp add: rows)
  have 2: "mset rows = mset (map make_row devs)" by (simp add: rows)
  have 3: "\<exists>mac d. (mac, d) \<in> set devs \<and>
            r_mac x = mac \<and> r_firstTime x = firstTime d \<and> r_lastTime x = lastTime d \<and>
            r_name x = (if name d \<noteq> [] then name d else mac) \<and>
            r_manufacturer x = (if manufacturer d \<noteq> [] then manufacturer d else ''Unknown'') \<and>
            (r_rssi x = CellStr ''Unknown'' \<longleftrightarrow> 255 < \<bar>rssi d\<bar>) \<and>
            (\<not> 255 < \<bar>rssi d\<bar> \<longrightarrow> r_rssi x = CellInt (rssi d)) \<and>
            row_key x = (if 255 < \<bar>rssi d\<bar> then ''Unknown'' else str_int (rssi d)) @ '' '' @ mac"
    if "x \<in> set rows" for x
  proof -
    from that have "x \<in> make_row ` set devs" by (simp add: rows)
    then obtain mac d where p: "(mac, d) \<in> set devs" and x: "x = make_row (mac, d)" by auto
    show ?thesis
      by (rule exI [of _ mac], rule exI [of _ d])
         (simp add: p x make_row_fields row_key_def str_cell_def)
  qed
  from 1 2 3 show ?thesis by blast
qed

theorem report_rows_witness:
  "report [(''AA'', newRecord 0 '''' '''' (- 9)), (''BB'', newRecord 0 ''b'' '''' (- 45)),
           (''CC'', newRecord 0 '''' ''Acme'' (- 80)), (''DD'', newRecord 0 '''' '''' 5000),
           (''EE'', newRecord 0 '''' '''' (- 256)), (''FF'', newRecord 0 '''' '''' 255)]
     = Some [make_row (''BB'', newRecord 0 ''b'' '''' (- 45)),
             make_row (''CC'', newRecord 0 '''' ''Acme'' (- 80)),
             make_row (''AA'', newRecord 0 '''' '''' (- 9)),
             make_row (''FF'', newRecord 0 '''' '''' 255),
             make_row (''DD'', newRecord 0 '''' '''' 5000),
             make_row (''EE'', newRecord 0 '''' '''' (- 256))] \<and>
   sorted [''-45 BB'', ''-80 CC'', ''-9 AA'', ''255 FF'', ''Unknown DD'', ''Unknown EE'']"
proof -
  let ?devs = "[(''AA'', newRecord 0 '''' '''' (- 9)), (''BB'', newRecord 0 ''b'' '''' (- 45)),
           (''CC'', newRecord 0 '''' ''Acme'' (- 80)), (''DD'', newRecord 0 '''' '''' 5000),
           (''EE'', newRecord 0 '''' '''' (- 256)), (''FF'', newRecord 0 '''' '''' 255)]"
  let ?rows = "[make_row (''BB'', newRecord 0 ''b'' '''' (- 45)),
             make_row (''CC'', newRecord 0 '''' ''Acme'' (- 80)),
             make_row (''AA'', newRecord 0 '''' '''' (- 9)),
             make_row (''FF'', newRecord 0 '''' '''' 255),
             make_row (''DD'', newRecord 0 '''' '''' 5000),
             make_row (''EE'', newRecord 0 '''' '''' (- 256))]"
  have run: "report ?devs = Some ?rows" by code_simp
  have keys: "map row_key ?rows
                = [''-45 BB'', ''-80 CC'', ''-9 AA'', ''255 FF'', ''Unknown DD'', ''Unknown EE'']"
    by code_simp
  from report_rows [OF run] have "sorted (map row_key ?rows)" by blast
  with run keys show ?thesis by simp
qed

end
